theory Spec2Isabelle
  imports
    Complex_Main
    "HOL-Library.Word"
    "HOL-Library.Signed_Division"
begin

unbundle bit_operations_syntax

section \<open>Machine integers, faults and fixed-point arithmetic (hal/hal_interface.h)\<close>

text \<open>
  Stored values keep the width the source gives them: \<^verbatim>\<open>fixed_t\<close> is
  \<^verbatim>\<open>int32_t\<close>, samples are \<^verbatim>\<open>int16_t\<close>, weights and biases
  \<^verbatim>\<open>int8_t\<close>, peak counts and class indices \<^verbatim>\<open>uint8_t\<close>, the battery
  voltage \<^verbatim>\<open>uint16_t\<close>. \<^verbatim>\<open>size_t\<close> is taken as the 32-bit unsigned
  type of the Cortex-M deployment target. A signed value is read with \<open>sint\<close>, an unsigned
  one with \<open>unat\<close>; arithmetic the source performs in \<^verbatim>\<open>int64_t\<close> is carried
  out on \<open>int\<close>, and a narrowing \<^verbatim>\<open>static_cast\<close> is \<open>word_of_int\<close>,
  which keeps the low bits. Loop counters are natural numbers that stay below a bound read
  from a \<^verbatim>\<open>size_t\<close>.
\<close>

type_synonym fixed_t = "32 word"
type_synonym int16_t = "16 word"
type_synonym int8_t = "8 word"
type_synonym uint8_t = "8 word"
type_synonym uint16_t = "16 word"
type_synonym uint32_t = "32 word"
type_synonym size_t = "32 word"

datatype fault =
    DivisionByZero   \<comment> \<open>integer division with divisor 0\<close>
  | OutOfBounds      \<comment> \<open>access through a null pointer or to an element outside an array\<close>

definition FIXED_SHIFT :: nat where
  "FIXED_SHIFT = 16"

definition FIXED_ONE :: fixed_t where
  "FIXED_ONE = push_bit FIXED_SHIFT 1"

definition trunc_to_int :: "rat \<Rightarrow> int" where
  \<comment> \<open>conversion of a floating-point value to an integer type discards the fraction\<close>
  "trunc_to_int x = (if 0 \<le> x then \<lfloor>x\<rfloor> else \<lceil>x\<rceil>)"

definition float_to_fixed :: "rat \<Rightarrow> fixed_t" where
  \<comment> \<open>the argument is the exact value of the binary32 operand; scaling by \<open>2 ^ 16\<close> is
      exact in binary32\<close>
  "float_to_fixed val = word_of_int (trunc_to_int (val * of_int (sint FIXED_ONE)))"

text \<open>The binary32 values of the literals the core passes to \<^verbatim>\<open>float_to_fixed\<close>.\<close>

definition f32_0_001 :: rat where "f32_0_001 = 8589935 / 8589934592"
definition f32_0_1 :: rat where "f32_0_1 = 13421773 / 134217728"
definition f32_0_2 :: rat where "f32_0_2 = 13421773 / 67108864"
definition f32_0_5 :: rat where "f32_0_5 = 1 / 2"
definition f32_0_65 :: rat where "f32_0_65 = 5452595 / 8388608"
definition f32_0_7 :: rat where "f32_0_7 = 11744051 / 16777216"
definition f32_0_85 :: rat where "f32_0_85 = 7130317 / 8388608"
definition f32_1_2 :: rat where "f32_1_2 = 5033165 / 4194304"
definition f32_1_5 :: rat where "f32_1_5 = 3 / 2"

definition fixed_mul :: "fixed_t \<Rightarrow> fixed_t \<Rightarrow> fixed_t" where
  "fixed_mul a b = word_of_int (drop_bit FIXED_SHIFT (sint a * sint b))"

definition BATTERY_CRITICAL_MV :: uint16_t where "BATTERY_CRITICAL_MV = 3000"
definition BATTERY_LOW_MV :: uint16_t where "BATTERY_LOW_MV = 3300"
definition BATTERY_NOMINAL_MV :: uint16_t where "BATTERY_NOMINAL_MV = 3700"

section \<open>Decision policy (core/decision.h, core/decision.cpp)\<close>

datatype Decision = SLEEP | TX_ALERT | TX_UNCERTAIN

record SpectralResult =
  dominant_frequency :: fixed_t
  peak_magnitude :: fixed_t
  spectral_centroid :: fixed_t
  num_peaks :: uint8_t

record InferenceResult =
  confidence :: fixed_t
  predicted_class :: uint8_t

record ThresholdConfig =
  base_confidence_threshold :: fixed_t
  low_battery_multiplier :: fixed_t
  critical_battery_multiplier :: fixed_t
  min_peaks_for_detection :: uint8_t

definition get_default_config :: ThresholdConfig where
  "get_default_config =
     \<lparr> base_confidence_threshold = float_to_fixed f32_0_65,
       low_battery_multiplier = float_to_fixed f32_1_2,
       critical_battery_multiplier = float_to_fixed f32_1_5,
       min_peaks_for_detection = 2 \<rparr>"

definition effective_threshold :: "uint16_t \<Rightarrow> ThresholdConfig \<Rightarrow> fixed_t" where
  \<comment> \<open>step 1 of \<^verbatim>\<open>evaluate_structure\<close>: the local \<^verbatim>\<open>effective_threshold\<close>\<close>
  "effective_threshold battery_mv config =
     (if battery_mv < BATTERY_CRITICAL_MV then
        fixed_mul (base_confidence_threshold config) (critical_battery_multiplier config)
      else if battery_mv < BATTERY_LOW_MV then
        fixed_mul (base_confidence_threshold config) (low_battery_multiplier config)
      else base_confidence_threshold config)"

definition sufficient_spectral_activity :: "SpectralResult \<Rightarrow> ThresholdConfig \<Rightarrow> bool" where
  \<comment> \<open>step 2 of \<^verbatim>\<open>evaluate_structure\<close>\<close>
  "sufficient_spectral_activity spectral config \<longleftrightarrow>
     min_peaks_for_detection config \<le> num_peaks spectral \<and>
     float_to_fixed f32_0_1 <s peak_magnitude spectral"

definition evaluate_structure ::
  "SpectralResult \<Rightarrow> InferenceResult \<Rightarrow> uint16_t \<Rightarrow> ThresholdConfig \<Rightarrow> Decision" where
  "evaluate_structure spectral inference battery_mv config =
     (let threshold = effective_threshold battery_mv config in
      if \<not> sufficient_spectral_activity spectral config then SLEEP
      else if predicted_class inference = 0 then SLEEP
      else if predicted_class inference = 1 then
        (if threshold \<le>s confidence inference then TX_ALERT
         else if fixed_mul threshold (float_to_fixed f32_0_7) \<le>s confidence inference
           then TX_UNCERTAIN
         else SLEEP)
      else if predicted_class inference = 2 then
        \<comment> \<open>\<^verbatim>\<open>min_peaks_for_detection + 1\<close> is computed in \<^verbatim>\<open>int\<close>: no wrap at 255\<close>
        (if BATTERY_LOW_MV \<le> battery_mv \<and>
            unat (min_peaks_for_detection config) + 1 \<le> unat (num_peaks spectral)
           then TX_UNCERTAIN
         else SLEEP)
      else SLEEP)"

section \<open>Results, arrays and counted loops\<close>

text \<open>
  Signed arithmetic that leaves its type wraps around, which is the truncating policy the
  fixed-point arithmetic of this code base is calibrated against. Two operations have no
  value: a division by zero, and an access through a null pointer or outside an array.
  A function that can perform one of them returns \<open>fault + 'a\<close>.
\<close>

fun bind_res :: "fault + 'a \<Rightarrow> ('a \<Rightarrow> fault + 'b) \<Rightarrow> fault + 'b" where
  "bind_res (Inl e) f = Inl e"
| "bind_res (Inr v) f = f v"

definition array_read :: "'a list \<Rightarrow> nat \<Rightarrow> fault + 'a" where
  "array_read a i = (if i < length a then Inr (a ! i) else Inl OutOfBounds)"

definition array_write :: "'a list \<Rightarrow> nat \<Rightarrow> 'a \<Rightarrow> fault + 'a list" where
  "array_write a i v = (if i < length a then Inr (a[i := v]) else Inl OutOfBounds)"

definition ptr_read :: "'a list option \<Rightarrow> nat \<Rightarrow> fault + 'a" where
  \<comment> \<open>a pointer argument is \<open>None\<close> when null, otherwise the array it points to\<close>
  "ptr_read p i = (case p of None \<Rightarrow> Inl OutOfBounds | Some a \<Rightarrow> array_read a i)"

definition s64 :: "int \<Rightarrow> int" where
  \<comment> \<open>the value an \<^verbatim>\<open>int64_t\<close> holds after a computation with exact result \<open>k\<close>\<close>
  "s64 k = signed_take_bit 63 k"

definition div_s64 :: "int \<Rightarrow> int \<Rightarrow> fault + int" where
  \<comment> \<open>\<^verbatim>\<open>a / b\<close> on \<^verbatim>\<open>int64_t\<close>: the quotient is rounded towards zero\<close>
  "div_s64 a b = (if b = 0 then Inl DivisionByZero else Inr (s64 (a sdiv b)))"

definition div_s32 :: "fixed_t \<Rightarrow> fixed_t \<Rightarrow> fault + fixed_t" where
  \<comment> \<open>\<^verbatim>\<open>a / b\<close> on \<^verbatim>\<open>int32_t\<close>\<close>
  "div_s32 a b = (if b = 0 then Inl DivisionByZero else Inr (word_of_int (sint a sdiv sint b)))"

fun for_loop :: "nat list \<Rightarrow> (nat \<Rightarrow> 's \<Rightarrow> fault + 's) \<Rightarrow> 's \<Rightarrow> fault + 's" where
  \<comment> \<open>\<^verbatim>\<open>for (size_t i = lo; i < hi; ++i) body\<close> is \<open>for_loop [lo..<hi] body\<close>,
      applied to the variables the body changes; a fault ends the loop\<close>
  "for_loop [] body s = Inr s"
| "for_loop (i # is) body s = bind_res (body i s) (for_loop is body)"

section \<open>Inference engine (core/inference.cpp)\<close>

text \<open>
  The members of \<^verbatim>\<open>InferenceEngine\<close> are those its constructor initialises; the two
  \<^verbatim>\<open>int8_t\<close> pointers are the arrays they point to.
\<close>

record InferenceEngine =
  weights :: "int8_t list"
  biases :: "int8_t list"
  input_size :: size_t
  output_size :: size_t
  scale_factor :: fixed_t

definition MAX_OUTPUTS :: size_t where
  "MAX_OUTPUTS = 8"

definition dot_product :: "InferenceEngine \<Rightarrow> fixed_t list \<Rightarrow> nat \<Rightarrow> fault + fixed_t" where
  "dot_product e input output_idx =
     bind_res
       (for_loop [0..<unat (input_size e)]
          (\<lambda>i accumulator.
             let weight_idx = unat (word_of_nat output_idx * input_size e + word_of_nat i :: size_t) in
             bind_res (array_read (weights e) weight_idx) (\<lambda>weight.
             bind_res (array_read input i) (\<lambda>x.
               Inr (s64 (accumulator + sint x * sint weight)))))
          0)
       (\<lambda>accumulator.
          let result = (word_of_int (drop_bit 7 accumulator) :: fixed_t);
              result = fixed_mul result (scale_factor e) in
          bind_res (array_read (biases e) output_idx) (\<lambda>bias.
            Inr (result + push_bit (FIXED_SHIFT - 7) (scast bias))))"

definition normalize_outputs :: "fixed_t list \<Rightarrow> size_t \<Rightarrow> fault + fixed_t list" where
  "normalize_outputs outputs count =
     bind_res (array_read outputs 0) (\<lambda>first.
     bind_res
       (for_loop [1..<unat count]
          (\<lambda>i (max_val, min_val).
             bind_res (array_read outputs i) (\<lambda>x.
               let max_val = (if max_val <s x then x else max_val);
                   min_val = (if x <s min_val then x else min_val)
               in Inr (max_val, min_val)))
          (first, first))
       (\<lambda>(max_val, min_val).
          let range = max_val - min_val in
          if range <s float_to_fixed f32_0_001 then
            bind_res (div_s32 FIXED_ONE (ucast count)) (\<lambda>uniform.
              for_loop [0..<unat count] (\<lambda>i outs. array_write outs i uniform) outputs)
          else
            bind_res
              (for_loop [0..<unat count]
                 (\<lambda>i (outs, sum).
                    bind_res (array_read outs i) (\<lambda>x.
                    bind_res (div_s32 (push_bit 8 FIXED_ONE) (signed_drop_bit 8 range)) (\<lambda>factor.
                      let y = fixed_mul (x - min_val) factor;
                          y = (if y <s 0 then 0 else y)
                      in bind_res (array_write outs i y) (\<lambda>outs. Inr (outs, sum + y)))))
                 (outputs, 0))
              (\<lambda>(outs, sum).
                 if 0 <s sum then
                   for_loop [0..<unat count]
                     (\<lambda>i outs.
                        bind_res (array_read outs i) (\<lambda>x.
                        bind_res (div_s64 (sint x * sint FIXED_ONE) (sint sum)) (\<lambda>q.
                          array_write outs i (word_of_int q))))
                     outs
                 else Inr outs)))"

definition argmax :: "fixed_t list \<Rightarrow> size_t \<Rightarrow> fault + uint8_t" where
  "argmax outputs count =
     bind_res (array_read outputs 0) (\<lambda>first.
     bind_res
       (for_loop [1..<unat count]
          (\<lambda>i (max_idx, max_val).
             bind_res (array_read outputs i) (\<lambda>x.
               if max_val <s x then Inr (word_of_nat i, x) else Inr (max_idx, max_val)))
          (0, first))
       (\<lambda>(max_idx, max_val). Inr max_idx))"

definition actual_outputs :: "InferenceEngine \<Rightarrow> size_t" where
  "actual_outputs e = (if output_size e < MAX_OUTPUTS then output_size e else MAX_OUTPUTS)"

definition raw_outputs :: "InferenceEngine \<Rightarrow> fixed_t list \<Rightarrow> fault + fixed_t list" where
  \<comment> \<open>the local array \<^verbatim>\<open>outputs\<close> of \<^verbatim>\<open>run\<close> after its first two loops (dot
      products, then clamping at 0); the array is not initialised in the source, its
      elements start as 0 here\<close>
  "raw_outputs e features =
     bind_res
       (for_loop [0..<unat (actual_outputs e)]
          (\<lambda>i outs. bind_res (dot_product e features i) (\<lambda>v. array_write outs i v))
          (replicate (unat MAX_OUTPUTS) 0))
       (\<lambda>outputs.
          for_loop [0..<unat (actual_outputs e)]
            (\<lambda>i outs.
               bind_res (array_read outs i) (\<lambda>x.
                 if x <s 0 then array_write outs i 0 else Inr outs))
            outputs)"

definition run :: "InferenceEngine \<Rightarrow> fixed_t list \<Rightarrow> size_t \<Rightarrow> fault + InferenceResult" where
  "run e features num_features =
     (if num_features \<noteq> input_size e then Inr \<lparr> confidence = 0, predicted_class = 0 \<rparr>
      else
        bind_res (raw_outputs e features) (\<lambda>outputs.
        bind_res (normalize_outputs outputs (actual_outputs e)) (\<lambda>outputs.
        bind_res (argmax outputs (actual_outputs e)) (\<lambda>cls.
        bind_res (array_read outputs (unat cls)) (\<lambda>conf.
          let conf = (if FIXED_ONE <s conf then FIXED_ONE else conf);
              conf = (if conf <s 0 then 0 else conf)
          in Inr \<lparr> confidence = conf, predicted_class = cls \<rparr>)))))"

section \<open>Spectral processor (core/spectral.h, core/spectral.cpp)\<close>

record SpectralProcessor =
  num_bins :: size_t
  sample_rate :: uint32_t

definition MAX_BINS :: size_t where
  "MAX_BINS = 128"

definition fast_sin :: "uint32_t \<Rightarrow> fixed_t" where
  "fast_sin angle = 
     (let angle_256 = angle AND 255;
          x = (ucast angle_256 :: fixed_t);
          x = (if 128 <s x then 256 - x else x);
          x = (if 64 <s x then 128 - x else x);
          result = (word_of_int (sint (x * FIXED_ONE) sdiv 64) :: fixed_t)
      in if 128 < angle_256 then - result else result)"

definition fast_cos :: "uint32_t \<Rightarrow> fixed_t" where
  "fast_cos angle_256 = fast_sin (angle_256 + 64)"

definition bin_magnitude :: "int \<Rightarrow> int \<Rightarrow> fixed_t" where
  \<comment> \<open>the last five statements of the bin loop of \<^verbatim>\<open>compute_magnitude_spectrum\<close>\<close>
  "bin_magnitude real_sum imag_sum =
     (let abs_real = (if 0 \<le> real_sum then real_sum else s64 (- real_sum));
          abs_imag = (if 0 \<le> imag_sum then imag_sum else s64 (- imag_sum));
          max_val = (if abs_imag < abs_real then abs_real else abs_imag);
          min_val = (if abs_real < abs_imag then abs_real else abs_imag)
      in word_of_int (drop_bit FIXED_SHIFT (s64 (max_val + s64 (min_val * 4) sdiv 10))))"

definition compute_magnitude_spectrum ::
  "SpectralProcessor \<Rightarrow> int16_t list option \<Rightarrow> size_t \<Rightarrow> fixed_t list \<Rightarrow> fault + fixed_t list" where
  "compute_magnitude_spectrum p samples num_samples magnitudes =
     for_loop [0..<unat (num_bins p)]
       (\<lambda>k mags.
          \<comment> \<open>\<^verbatim>\<open>num_bins_\<close> is not 0 inside this loop\<close>
          let freq_mult = (word_of_nat k * 256) div num_bins p in
          bind_res
            (for_loop [0..<unat num_samples]
               (\<lambda>n (real_sum, imag_sum).
                  let angle = (freq_mult * word_of_nat n) mod 256;
                      cos_val = fast_cos angle;
                      sin_val = fast_sin angle
                  in bind_res (ptr_read samples n) (\<lambda>sample.
                       Inr (s64 (real_sum + sint sample * sint cos_val),
                            s64 (imag_sum + sint sample * sint sin_val))))
               (0, 0))
            (\<lambda>(real_sum, imag_sum).
               bind_res (div_s64 real_sum (uint num_samples)) (\<lambda>real_sum.
               bind_res (div_s64 imag_sum (uint num_samples)) (\<lambda>imag_sum.
                 array_write mags k (bin_magnitude real_sum imag_sum)))))
       magnitudes"

definition find_peaks :: "fixed_t list \<Rightarrow> size_t \<Rightarrow> fixed_t \<Rightarrow> fault + uint8_t" where
  "find_peaks magnitudes count threshold =
     for_loop [1..<unat (count - 1)]
       (\<lambda>i peak_count.
          bind_res (array_read magnitudes i) (\<lambda>m.
            if threshold <s m then
              bind_res (array_read magnitudes (i - 1)) (\<lambda>left.
                if left <s m then
                  bind_res (array_read magnitudes (i + 1)) (\<lambda>right.
                    if right <s m then Inr (peak_count + 1) else Inr peak_count)
                else Inr peak_count)
            else Inr peak_count))
       0"

definition compute_centroid :: "fixed_t list \<Rightarrow> size_t \<Rightarrow> fault + fixed_t" where
  "compute_centroid magnitudes count =
     bind_res
       (for_loop [0..<unat count]
          (\<lambda>i (weighted_sum, magnitude_sum).
             bind_res (array_read magnitudes i) (\<lambda>m.
               Inr (s64 (weighted_sum + sint m * int i), s64 (magnitude_sum + sint m))))
          (0, 0))
       (\<lambda>(weighted_sum, magnitude_sum).
          if magnitude_sum = 0 then Inr 0
          else bind_res (div_s64 (s64 (weighted_sum * sint FIXED_ONE)) magnitude_sum)
                 (\<lambda>q. Inr (word_of_int q)))"

definition process ::
  "SpectralProcessor \<Rightarrow> int16_t list option \<Rightarrow> size_t \<Rightarrow> fault + SpectralResult" where
  \<comment> \<open>the local array \<^verbatim>\<open>magnitudes\<close> is not initialised in the source; its elements
      start as 0 here\<close>
  "process p samples num_samples =
     (if num_samples = 0 \<or> samples = None then
        Inr \<lparr> dominant_frequency = 0, peak_magnitude = 0, spectral_centroid = 0, num_peaks = 0 \<rparr>
      else
        let actual_bins = (if num_bins p < MAX_BINS then num_bins p else MAX_BINS) in
        bind_res (compute_magnitude_spectrum p samples num_samples
                    (replicate (unat MAX_BINS) 0)) (\<lambda>magnitudes.
        bind_res
          (for_loop [1..<unat actual_bins]
             (\<lambda>i (max_mag, max_bin).
                bind_res (array_read magnitudes i) (\<lambda>m.
                  if max_mag <s m then Inr (m, i) else Inr (max_mag, max_bin)))
             (0, 0))
          (\<lambda>(max_mag, max_bin).
             bind_res (div_s64 (s64 (s64 (int max_bin * uint (sample_rate p)) * sint FIXED_ONE))
                         (uint (2 * actual_bins))) (\<lambda>frequency.
             let peak_threshold = fixed_mul max_mag (float_to_fixed f32_0_2) in
             bind_res (find_peaks magnitudes actual_bins peak_threshold) (\<lambda>peaks.
             bind_res (compute_centroid magnitudes actual_bins) (\<lambda>centroid.
               Inr \<lparr> dominant_frequency = word_of_int frequency, peak_magnitude = max_mag,
                     spectral_centroid = centroid, num_peaks = peaks \<rparr>))))))"

definition extract_features ::
  "SpectralProcessor \<Rightarrow> int16_t list option \<Rightarrow> size_t \<Rightarrow> fixed_t list \<Rightarrow> size_t
     \<Rightarrow> fault + (size_t \<times> fixed_t list)" where
  \<comment> \<open>the result is the returned count with the contents of \<^verbatim>\<open>features\<close> afterwards\<close>
  "extract_features p samples num_samples features max_features =
     (if max_features < num_bins p then Inr (0, features)
      else
        bind_res (compute_magnitude_spectrum p samples num_samples features) (\<lambda>features.
        bind_res
          (for_loop [0..<unat (num_bins p)]
             (\<lambda>i max_val.
                bind_res (array_read features i) (\<lambda>x.
                  Inr (if max_val <s x then x else max_val)))
             0)
          (\<lambda>max_val.
             bind_res
               (if 0 <s max_val then
                  for_loop [0..<unat (num_bins p)]
                    (\<lambda>i feats.
                       bind_res (array_read feats i) (\<lambda>x.
                       bind_res (div_s64 (sint x * sint FIXED_ONE) (sint max_val)) (\<lambda>q.
                         array_write feats i (word_of_int q))))
                    features
                else Inr features)
               (\<lambda>features. Inr (num_bins p, features)))))"

section \<open>Reference definitions and example inputs\<close>

definition is_peak :: "fixed_t list \<Rightarrow> fixed_t \<Rightarrow> nat \<Rightarrow> bool" where
  \<comment> \<open>the specification's peak condition on bin \<open>i\<close>: above the threshold and above
      both neighbours\<close>
  "is_peak magnitudes threshold i \<longleftrightarrow>
     threshold <s magnitudes ! i \<and> magnitudes ! (i - 1) <s magnitudes ! i \<and>
     magnitudes ! (i + 1) <s magnitudes ! i"

definition peak_bins :: "fixed_t list \<Rightarrow> nat \<Rightarrow> fixed_t \<Rightarrow> nat list" where
  \<comment> \<open>the bins the specification counts: the interior bins \<open>1 \<le> i < count - 1\<close> that
      satisfy the peak condition\<close>
  "peak_bins magnitudes count threshold = filter (is_peak magnitudes threshold) [1..<count - 1]"

definition f32_0_01 :: rat where "f32_0_01 = 5368709 / 536870912"
definition f32_0_9 :: rat where "f32_0_9 = 7549747 / 8388608"

definition active_spectral :: SpectralResult where
  "active_spectral = \<lparr> dominant_frequency = 0, peak_magnitude = float_to_fixed f32_0_5,
                        spectral_centroid = 0, num_peaks = 3 \<rparr>"

definition quiet_spectral :: SpectralResult where
  "quiet_spectral = \<lparr> dominant_frequency = 0, peak_magnitude = float_to_fixed f32_0_01,
                       spectral_centroid = 0, num_peaks = 0 \<rparr>"

definition anomaly_085 :: InferenceResult where
  "anomaly_085 = \<lparr> confidence = float_to_fixed f32_0_85, predicted_class = 1 \<rparr>"

definition anomaly_09 :: InferenceResult where
  "anomaly_09 = \<lparr> confidence = float_to_fixed f32_0_9, predicted_class = 1 \<rparr>"

definition engine_gap :: InferenceEngine where
  \<comment> \<open>two classes over one feature; feature value 128 gives the raw outputs 0 and 100\<close>
  "engine_gap = \<lparr> weights = [0, 100], biases = [0, 0], input_size = 1, output_size = 2,
                   scale_factor = FIXED_ONE \<rparr>"

definition engine_wide :: InferenceEngine where
  \<comment> \<open>sixteen classes over one feature, all weights and biases 0\<close>
  "engine_wide = \<lparr> weights = replicate 16 0, biases = replicate 16 0, input_size = 1,
                    output_size = 16, scale_factor = FIXED_ONE \<rparr>"

definition processor_2 :: SpectralProcessor where
  "processor_2 = \<lparr> num_bins = 2, sample_rate = 1000 \<rparr>"

definition engine_three :: InferenceEngine where
  \<comment> \<open>three classes over one feature; feature value 128 gives the raw outputs 10, 20, 30\<close>
  "engine_three = \<lparr> weights = [10, 20, 30], biases = [0, 0, 0], input_size = 1,
                     output_size = 3, scale_factor = FIXED_ONE \<rparr>"

definition output_spread :: "fixed_t list \<Rightarrow> int" where
  \<comment> \<open>the difference between the largest and the smallest value of a non-empty array\<close>
  "output_spread xs = Max (sint ` set xs) - Min (sint ` set xs)"

definition processor_4 :: SpectralProcessor where
  "processor_4 = \<lparr> num_bins = 4, sample_rate = 1000 \<rparr>"

section \<open>Constants and loop rules\<close>

lemma FIXED_ONE_eq: "FIXED_ONE = 65536"
  by (simp add: FIXED_ONE_def FIXED_SHIFT_def)

lemma float_to_fixed_0_001: "float_to_fixed f32_0_001 = 65" by code_simp
lemma float_to_fixed_0_1: "float_to_fixed f32_0_1 = 6553" by code_simp
lemma float_to_fixed_0_2: "float_to_fixed f32_0_2 = 13107" by code_simp
lemma float_to_fixed_0_5: "float_to_fixed f32_0_5 = 32768" by code_simp
lemma float_to_fixed_0_65: "float_to_fixed f32_0_65 = 42598" by code_simp
lemma float_to_fixed_0_7: "float_to_fixed f32_0_7 = 45875" by code_simp
lemma float_to_fixed_0_85: "float_to_fixed f32_0_85 = 55705" by code_simp
lemma float_to_fixed_1_2: "float_to_fixed f32_1_2 = 78643" by code_simp
lemma float_to_fixed_1_5: "float_to_fixed f32_1_5 = 98304" by code_simp

lemma bind_res_eq_Inr: "bind_res m f = Inr r \<longleftrightarrow> (\<exists>v. m = Inr v \<and> f v = Inr r)"
  by (cases m) simp_all

lemma for_loop_append:
  "for_loop (xs @ ys) body s = bind_res (for_loop xs body s) (for_loop ys body)"
proof (induction xs arbitrary: s)
  case Nil
  show ?case by simp
next
  case (Cons i xs)
  show ?case
  proof (cases "body i s")
    case (Inl e)
    then show ?thesis by simp
  next
    case (Inr s')
    then show ?thesis by (simp add: Cons.IH)
  qed
qed

lemma for_loop_split:
  assumes "lo \<le> mid" and "mid \<le> hi"
  shows "for_loop [lo..<hi] body s = bind_res (for_loop [lo..<mid] body s) (for_loop [mid..<hi] body)"
proof -
  have "[lo..<hi] = [lo..<mid] @ [mid..<hi]"
    using assms by (metis le_Suc_ex upt_add_eq_append)
  then show ?thesis by (simp add: for_loop_append)
qed

lemma for_loop_first:
  assumes "lo < hi"
  shows "for_loop [lo..<hi] body s = bind_res (body lo s) (for_loop [Suc lo..<hi] body)"
  using assms by (simp add: upt_conv_Cons)

lemma for_loop_last:
  assumes "lo \<le> hi"
  shows "for_loop [lo..<Suc hi] body s = bind_res (for_loop [lo..<hi] body s) (body hi)"
proof -
  have "for_loop [hi..<Suc hi] body = body hi"
  proof
    fix t show "for_loop [hi..<Suc hi] body t = body hi t"
      by (cases "body hi t") simp_all
  qed
  then show ?thesis using assms for_loop_split [of lo hi "Suc hi" body s] by simp
qed

lemma for_loop_invariant:
  assumes init: "I lo s"
    and step: "\<And>i t. lo \<le> i \<Longrightarrow> i < hi \<Longrightarrow> I i t \<Longrightarrow> \<exists>t'. body i t = Inr t' \<and> I (Suc i) t'"
    and le: "lo \<le> hi"
  shows "\<exists>t. for_loop [lo..<hi] body s = Inr t \<and> I hi t"
  using le step
proof (induction hi)
  case 0
  then show ?case using init by simp
next
  case (Suc hi)
  show ?case
  proof (cases "lo = Suc hi")
    case True
    then show ?thesis using init by simp
  next
    case False
    then have le: "lo \<le> hi" using Suc.prems(1) by simp
    have "\<exists>t. for_loop [lo..<hi] body s = Inr t \<and> I hi t"
      using Suc.IH [OF le] Suc.prems(2) by simp
    then obtain t where t: "for_loop [lo..<hi] body s = Inr t" "I hi t" by blast
    obtain t' where t': "body hi t = Inr t'" "I (Suc hi) t'"
      using Suc.prems(2) [OF le _ t(2)] by auto
    show ?thesis using t t' by (simp add: for_loop_last [OF le] del: upt_Suc)
  qed
qed

lemma size_t_minus_1: "unat (0 - 1 :: size_t) = 4294967295"
  by (simp add: unsigned_minus_1_eq_mask mask_eq_exp_minus_1)

section \<open>Decision policy: activity veto, scenarios, alert condition\<close>

text \<open>
  C2. Whatever the inference result, the battery voltage and the configuration are, spectra
  with fewer peaks than \<^verbatim>\<open>min_peaks_for_detection\<close> or with a peak magnitude of at
  most \<^verbatim>\<open>float_to_fixed(0.1f)\<close> make \<^verbatim>\<open>evaluate_structure\<close> return SLEEP.
\<close>

theorem activity_veto:
  "num_peaks spectral < min_peaks_for_detection config \<or>
   peak_magnitude spectral \<le>s float_to_fixed f32_0_1 \<Longrightarrow>
   evaluate_structure spectral inference battery_mv config = SLEEP"
  by (auto simp add: evaluate_structure_def sufficient_spectral_activity_def Let_def
        word_sless_alt word_sle_eq)

theorem activity_veto_witness:
  "(num_peaks quiet_spectral < min_peaks_for_detection get_default_config \<or>
    peak_magnitude quiet_spectral \<le>s float_to_fixed f32_0_1) \<and>
   evaluate_structure quiet_spectral anomaly_09 BATTERY_NOMINAL_MV get_default_config = SLEEP"
proof -
  have h: "num_peaks quiet_spectral < min_peaks_for_detection get_default_config \<or>
           peak_magnitude quiet_spectral \<le>s float_to_fixed f32_0_1"
    by (simp add: quiet_spectral_def get_default_config_def)
  show ?thesis
    by (rule conjI [OF h activity_veto [OF h]])
qed

text \<open>
  C3. Scenarios A and B: with the default configuration, three peaks, peak magnitude 0.5,
  class 1 and confidence 0.85, the decision is TX_ALERT at 3700 mV and TX_UNCERTAIN at
  2900 mV, where the effective threshold is 0.65 * 1.5 (63897 / 65536), above the
  confidence, and 0.7 times that threshold is below it.
\<close>

theorem scenarios_A_and_B:
  "evaluate_structure active_spectral anomaly_085 3700 get_default_config = TX_ALERT \<and>
   evaluate_structure active_spectral anomaly_085 2900 get_default_config = TX_UNCERTAIN \<and>
   effective_threshold 2900 get_default_config = 63897 \<and>
   confidence anomaly_085 <s effective_threshold 2900 get_default_config \<and>
   fixed_mul (effective_threshold 2900 get_default_config) (float_to_fixed f32_0_7)
     \<le>s confidence anomaly_085"
  by code_simp

text \<open>
  C10. \<^verbatim>\<open>evaluate_structure\<close> returns TX_ALERT only for class 1 with a confidence of
  at least the battery-scaled threshold and with the activity veto passed; hence never for
  another class.
\<close>

theorem tx_alert_only_for_confident_anomaly:
  "evaluate_structure spectral inference battery_mv config = TX_ALERT \<Longrightarrow>
   predicted_class inference = 1 \<and>
   effective_threshold battery_mv config \<le>s confidence inference \<and>
   min_peaks_for_detection config \<le> num_peaks spectral \<and>
   float_to_fixed f32_0_1 <s peak_magnitude spectral"
  by (auto simp add: evaluate_structure_def sufficient_spectral_activity_def Let_def
        split: if_splits)

theorem tx_alert_only_for_confident_anomaly_witness:
  "evaluate_structure active_spectral anomaly_085 3700 get_default_config = TX_ALERT \<and>
   (predicted_class anomaly_085 = 1 \<and>
    effective_threshold 3700 get_default_config \<le>s confidence anomaly_085 \<and>
    min_peaks_for_detection get_default_config \<le> num_peaks active_spectral \<and>
    float_to_fixed f32_0_1 <s peak_magnitude active_spectral)"
proof -
  have h: "evaluate_structure active_spectral anomaly_085 3700 get_default_config = TX_ALERT"
    by code_simp
  show ?thesis
    by (rule conjI [OF h tx_alert_only_for_confident_anomaly [OF h]])
qed

section \<open>Inference engine: length mismatch and confidence range\<close>

text \<open>
  C4. When the number of features passed differs from the configured input size,
  \<^verbatim>\<open>run\<close> returns class 0 with confidence 0 and performs no faulting operation.
\<close>

theorem run_length_mismatch:
  "num_features \<noteq> input_size e \<Longrightarrow>
   run e features num_features = Inr \<lparr> confidence = 0, predicted_class = 0 \<rparr>"
  by (simp add: run_def)

theorem run_length_mismatch_witness:
  "2 \<noteq> input_size engine_gap \<and>
   run engine_gap [128, 128] 2 = Inr \<lparr> confidence = 0, predicted_class = 0 \<rparr>"
proof -
  have h: "2 \<noteq> input_size engine_gap"
    by (simp add: engine_gap_def)
  show ?thesis
    by (rule conjI [OF h run_length_mismatch [OF h]])
qed

text \<open>
  C9. Every result \<^verbatim>\<open>run\<close> returns has a confidence between 0 and
  \<^verbatim>\<open>FIXED_ONE\<close>.
\<close>

theorem run_confidence_range:
  "run e features num_features = Inr r \<Longrightarrow>
   0 \<le>s confidence r \<and> confidence r \<le>s FIXED_ONE"
  by (auto simp add: run_def bind_res_eq_Inr Let_def FIXED_ONE_eq word_sle_eq word_sless_alt
        split: if_splits)

theorem run_confidence_range_witness:
  "run engine_wide [128] 1 = Inr \<lparr> confidence = 8192, predicted_class = 0 \<rparr> \<and>
   0 \<le>s confidence \<lparr> confidence = 8192, predicted_class = 0 \<rparr> \<and>
   confidence \<lparr> confidence = 8192, predicted_class = 0 \<rparr> \<le>s FIXED_ONE"
proof -
  have h: "run engine_wide [128] 1 = Inr \<lparr> confidence = 8192, predicted_class = 0 \<rparr>"
    by code_simp
  show ?thesis
    by (rule conjI [OF h run_confidence_range [OF h]])
qed

section \<open>Spectral processor: empty input\<close>

text \<open>
  C5. \<^verbatim>\<open>process\<close> called with a null sample pointer or with no samples returns the
  all-zero result and performs no faulting operation.
\<close>

theorem process_empty_input:
  "samples = None \<or> num_samples = 0 \<Longrightarrow>
   process p samples num_samples =
     Inr \<lparr> dominant_frequency = 0, peak_magnitude = 0, spectral_centroid = 0, num_peaks = 0 \<rparr>"
  by (auto simp add: process_def)

theorem process_empty_input_witness:
  "((None :: int16_t list option) = None \<or> (256 :: size_t) = 0) \<and>
   process processor_4 None 256 =
     Inr \<lparr> dominant_frequency = 0, peak_magnitude = 0, spectral_centroid = 0, num_peaks = 0 \<rparr>"
proof -
  have h: "(None :: int16_t list option) = None \<or> (256 :: size_t) = 0"
    by simp
  show ?thesis
    by (rule conjI [OF h process_empty_input [OF h]])
qed

section \<open>Faulting inputs of the core functions\<close>

text \<open>
  C1. Three inputs on which a core function performs an operation without a value:
  \<^verbatim>\<open>extract_features\<close> with no samples divides the correlation sums by 0;
  \<^verbatim>\<open>run\<close> with raw outputs 0 and 100 (a range of at least the epsilon 65 and below
  256) divides by \<^verbatim>\<open>range >> 8\<close>, which is 0; \<^verbatim>\<open>find_peaks\<close> with count 0
  iterates up to \<^verbatim>\<open>SIZE_MAX - 1\<close> and leaves the array.
\<close>

theorem core_functions_fault:
  "extract_features processor_4 (Some []) 0 [0, 0, 0, 0] 4 = Inl DivisionByZero \<and>
   run engine_gap [128] 1 = Inl DivisionByZero \<and>
   find_peaks [5, 3, 1] 0 0 = Inl OutOfBounds"
proof -
  let ?body = "(\<lambda>i peak_count.
          bind_res (array_read [5, 3, 1 :: fixed_t] i) (\<lambda>m.
            if 0 <s m then
              bind_res (array_read [5, 3, 1] (i - 1)) (\<lambda>left.
                if left <s m then
                  bind_res (array_read [5, 3, 1] (i + 1)) (\<lambda>right.
                    if right <s m then Inr (peak_count + 1) else Inr peak_count)
                else Inr peak_count)
            else Inr peak_count))"
  have a: "for_loop [1..<3] ?body (0 :: uint8_t) = Inr 0"
    by code_simp
  have c: "?body 3 0 = Inl OutOfBounds"
    by (simp add: array_read_def)
  have lt: "(3::nat) < 4294967295"
    by simp
  have b: "for_loop [3..<4294967295] ?body (0 :: uint8_t) = Inl OutOfBounds"
    by (simp only: for_loop_first [OF lt] c bind_res.simps)
  have le1: "(1::nat) \<le> 3" and le2: "(3::nat) \<le> 4294967295"
    by simp_all
  have "for_loop [1..<4294967295] ?body (0 :: uint8_t) = Inl OutOfBounds"
    by (simp only: for_loop_split [OF le1 le2] a b bind_res.simps)
  then have peaks: "find_peaks [5, 3, 1] 0 0 = Inl OutOfBounds"
    unfolding find_peaks_def size_t_minus_1 .
  have features: "extract_features processor_4 (Some []) 0 [0, 0, 0, 0] 4 = Inl DivisionByZero"
    by code_simp
  have inference: "run engine_gap [128] 1 = Inl DivisionByZero"
    by code_simp
  show ?thesis
    using features inference peaks by (intro conjI)
qed

section \<open>Peak finding\<close>

lemma peak_step:
  assumes "Suc i < length mags" 
  shows "bind_res (array_read mags i) (\<lambda>m.
            if thr <s m then
              bind_res (array_read mags (i - 1)) (\<lambda>left.
                if left <s m then
                  bind_res (array_read mags (i + 1)) (\<lambda>right.
                    if right <s m then Inr (c + 1) else Inr c)
                else Inr c)
            else Inr c) = Inr (if is_peak mags thr i then c + 1 else (c :: uint8_t))"
proof -
  have "i < length mags" and "i - 1 < length mags" and "i + 1 < length mags"
    using assms by simp_all
  then show ?thesis by (simp add: array_read_def is_peak_def)
qed

lemma find_peaks_loop:
  assumes "hi < length mags"
  shows "for_loop [1..<hi]
       (\<lambda>i peak_count.
          bind_res (array_read mags i) (\<lambda>m.
            if thr <s m then
              bind_res (array_read mags (i - 1)) (\<lambda>left.
                if left <s m then
                  bind_res (array_read mags (i + 1)) (\<lambda>right.
                    if right <s m then Inr (peak_count + 1) else Inr peak_count)
                else Inr peak_count)
            else Inr peak_count))
       (0 :: uint8_t) = Inr (word_of_nat (length (filter (is_peak mags thr) [1..<hi])))"
  using assms
proof (induction hi)
  case 0
  then show ?case by simp
next
  case (Suc hi)
  show ?case
  proof (cases "hi = 0")
    case True
    then show ?thesis by simp
  next
    case False
    then have le: "1 \<le> hi" by simp
    have lt: "Suc hi < length mags" using Suc.prems .
    have IH: "for_loop [1..<hi]
       (\<lambda>i peak_count.
          bind_res (array_read mags i) (\<lambda>m.
            if thr <s m then
              bind_res (array_read mags (i - 1)) (\<lambda>left.
                if left <s m then
                  bind_res (array_read mags (i + 1)) (\<lambda>right.
                    if right <s m then Inr (peak_count + 1) else Inr peak_count)
                else Inr peak_count)
            else Inr peak_count))
       (0 :: uint8_t) = Inr (word_of_nat (length (filter (is_peak mags thr) [1..<hi])))"
      using Suc.IH lt by simp
    have up: "[1..<Suc hi] = [1..<hi] @ [hi]" using le by simp
    show ?thesis
      unfolding for_loop_last [OF le] IH bind_res.simps peak_step [OF lt]
      unfolding up by simp
  qed
qed

lemma find_peaks_eq:
  assumes "count \<noteq> 0" and "unat count \<le> length mags"
  shows "find_peaks mags count thr = Inr (word_of_nat (length (peak_bins mags (unat count) thr)))"
proof -
  have u: "unat (count - 1) = unat count - 1"
    using assms(1) by (simp add: unat_minus_one)
  have pos: "0 < unat count" using assms(1) by (simp add: unat_gt_0)
  have "unat count - 1 < length mags" using assms(2) pos by simp
  then show ?thesis
    unfolding find_peaks_def u peak_bins_def by (rule find_peaks_loop)
qed

lemma peaks_not_adjacent: "is_peak mags thr i \<Longrightarrow> \<not> is_peak mags thr (Suc i)"
  by (auto simp add: is_peak_def word_sless_alt)

lemma sparse_filter_bound:
  assumes "\<And>i. P i \<Longrightarrow> \<not> P (Suc i)"
  shows "2 * length (filter P [a..<b]) \<le> (b - a) + (if a < b \<and> P (b - 1) then 1 else 0)"
proof (induction b)
  case 0
  then show ?case by simp
next
  case (Suc b)
  show ?case
  proof (cases "a \<le> b")
    case False
    then show ?thesis by simp
  next
    case True
    show ?thesis
    proof (cases "P b")
      case pb: True
      have "a < b \<Longrightarrow> \<not> P (b - 1)"
        using assms [of "b - 1"] pb by auto
      then have "2 * length (filter P [a..<b]) \<le> b - a"
        using Suc.IH by (auto split: if_splits)
      then show ?thesis using True pb by simp
    next
      case False
      then show ?thesis using True Suc.IH by (auto split: if_splits)
    qed
  qed
qed

lemma peak_bins_bound: "2 * length (peak_bins mags count thr) \<le> count - 1"
proof -
  have "2 * length (filter (is_peak mags thr) [1..<count - 1]) \<le> (count - 1 - 1) + 1"
    using sparse_filter_bound [of "is_peak mags thr" 1 "count - 1"] peaks_not_adjacent
    by (auto split: if_splits)
  then show ?thesis
    unfolding peak_bins_def by (cases "count - 1") auto
qed

lemma peak_bins_interior: "set (peak_bins mags count thr) \<subseteq> {1..<count - 1}"
  by (auto simp add: peak_bins_def)

text \<open>
  C7. For a magnitude array that holds \<open>count \<ge> 1\<close> elements and any threshold,
  \<^verbatim>\<open>find_peaks\<close> counts the bins \<open>1 \<le> i < count - 1\<close> that are above the
  threshold and above both neighbours, and never bin 0 or the last bin. Its counter is a
  \<^verbatim>\<open>uint8_t\<close>: it holds that number exactly for every count up to 512, which
  covers every count its only caller \<^verbatim>\<open>process\<close> passes (at most
  \<^verbatim>\<open>MAX_BINS\<close>, 128).
\<close>

theorem find_peaks_counts_interior_peaks:
  assumes "count \<noteq> 0" and "unat count \<le> length magnitudes"
  shows "find_peaks magnitudes count threshold =
           Inr (word_of_nat (length (peak_bins magnitudes (unat count) threshold))) \<and>
         (unat count \<le> 512 \<longrightarrow>
            unat (word_of_nat (length (peak_bins magnitudes (unat count) threshold)) :: uint8_t)
              = length (peak_bins magnitudes (unat count) threshold)) \<and>
         0 \<notin> set (peak_bins magnitudes (unat count) threshold) \<and>
         unat count - 1 \<notin> set (peak_bins magnitudes (unat count) threshold)"
proof -
  let ?n = "length (peak_bins magnitudes (unat count) threshold)"
  have exact: "unat (word_of_nat ?n :: uint8_t) = ?n" if "unat count \<le> 512"
  proof -
    have "2 * ?n \<le> unat count - 1"
      by (rule peak_bins_bound)
    then have "?n < 256"
      using that by simp
    then show ?thesis
      by (simp add: unat_of_nat)
  qed
  have ends: "0 \<notin> set (peak_bins magnitudes (unat count) threshold)"
    "unat count - 1 \<notin> set (peak_bins magnitudes (unat count) threshold)"
    using peak_bins_interior [of magnitudes "unat count" threshold] by auto
  show ?thesis
    using find_peaks_eq [OF assms, of threshold] exact ends by blast
qed

theorem find_peaks_counts_interior_peaks_witness:
  "(5 :: size_t) \<noteq> 0 \<and> unat (5 :: size_t) \<le> length [0, 3, 1, 4, 2 :: fixed_t] \<and>
   unat (5 :: size_t) \<le> 512 \<and>
   find_peaks [0, 3, 1, 4, 2] 5 0 = Inr 2 \<and>
   peak_bins [0, 3, 1, 4, 2] (unat (5 :: size_t)) 0 = [1, 3]"
proof -
  have h1: "(5 :: size_t) \<noteq> 0" and h2: "unat (5 :: size_t) \<le> length [0, 3, 1, 4, 2 :: fixed_t]"
    by simp_all
  have bins: "peak_bins [0, 3, 1, 4, 2] (unat (5 :: size_t)) 0 = [1, 3]"
    by code_simp
  show ?thesis
    using find_peaks_counts_interior_peaks [OF h1 h2, of 0] h1 h2 bins by simp
qed

section \<open>Inference engine: near-equal raw outputs\<close>

lemma for_loop_preserves:
  assumes "for_loop [lo..<hi] body s = Inr t" and "I lo s" and "lo \<le> hi"
    and step: "\<And>i u u'. lo \<le> i \<Longrightarrow> i < hi \<Longrightarrow> I i u \<Longrightarrow> body i u = Inr u' \<Longrightarrow> I (Suc i) u'"
  shows "I hi t"
  using assms(1,3) step
proof (induction hi arbitrary: t)
  case 0
  then show ?case using assms(2) by simp
next
  case (Suc hi)
  show ?case
  proof (cases "lo = Suc hi")
    case True
    then show ?thesis using Suc.prems(1) assms(2) by simp
  next
    case False
    then have le: "lo \<le> hi" using Suc.prems(2) by simp
    obtain u where u: "for_loop [lo..<hi] body s = Inr u" "body hi u = Inr t"
      using Suc.prems(1) unfolding for_loop_last [OF le] bind_res_eq_Inr by blast
    have "I hi u"
      using Suc.IH [OF u(1) le] Suc.prems(3) by simp
    then show ?thesis
      using Suc.prems(3) [OF le _ _ u(2)] by simp
  qed
qed

lemma actual_outputs_le: "unat (actual_outputs e) \<le> 8"
  by (simp add: actual_outputs_def MAX_OUTPUTS_def word_less_nat_alt)

lemma actual_outputs_pos: "output_size e \<noteq> 0 \<Longrightarrow> actual_outputs e \<noteq> 0"
  by (auto simp add: actual_outputs_def MAX_OUTPUTS_def)

lemma array_write_eq_Inr: "array_write a i v = Inr b \<longleftrightarrow> i < length a \<and> b = a[i := v]"
  by (auto simp add: array_write_def)

lemma array_read_eq_Inr: "array_read a i = Inr v \<longleftrightarrow> i < length a \<and> v = a ! i"
  by (auto simp add: array_read_def)

lemma raw_outputs_props:
  assumes "raw_outputs e features = Inr outs"
  shows "length outs = 8" and "\<forall>i<unat (actual_outputs e). 0 \<le>s outs ! i"
proof -
  let ?n = "unat (actual_outputs e)"
  obtain o1 where l1: "for_loop [0..<?n]
          (\<lambda>i outs. bind_res (dot_product e features i) (\<lambda>v. array_write outs i v))
          (replicate (unat MAX_OUTPUTS) 0) = Inr o1"
    and l2: "for_loop [0..<?n]
            (\<lambda>i outs.
               bind_res (array_read outs i) (\<lambda>x.
                 if x <s 0 then array_write outs i 0 else Inr outs))
            o1 = Inr outs"
    using assms unfolding raw_outputs_def bind_res_eq_Inr by blast
  have len1: "length o1 = 8"
    by (rule for_loop_preserves [OF l1, where I = "\<lambda>i u. length u = 8"])
      (auto simp add: MAX_OUTPUTS_def bind_res_eq_Inr array_write_eq_Inr)
  have "length outs = 8 \<and> (\<forall>j<?n. 0 \<le>s outs ! j)"
    by (rule for_loop_preserves [OF l2, where I = "\<lambda>i u. length u = 8 \<and> (\<forall>j<i. 0 \<le>s u ! j)"])
      (auto simp add: len1 bind_res_eq_Inr array_write_eq_Inr array_read_eq_Inr
         nth_list_update less_Suc_eq word_sle_eq word_sless_alt split: if_splits)
  then show "length outs = 8" and "\<forall>i<?n. 0 \<le>s outs ! i" by simp_all
qed


lemma sint_diff_nonneg:
  fixes a b :: fixed_t
  assumes "0 \<le>s a" and "0 \<le>s b"
  shows "sint (a - b) = sint a - sint b"
proof -
  have a: "0 \<le> sint a" "sint a < 2 ^ 31" and b: "0 \<le> sint b" "sint b < 2 ^ 31"
    using assms sint_lt [of a] sint_lt [of b] by (simp_all add: word_sle_eq)
  have "sint (a - b) = signed_take_bit 31 (sint a - sint b)"
    by (simp add: sint_word_ariths)
  also have "\<dots> = sint a - sint b"
    by (rule signed_take_bit_int_eq_self) (use a b in simp_all)
  finally show ?thesis .
qed

lemma small_count_cases:
  fixes n :: size_t
  assumes "n \<noteq> 0" and "unat n \<le> 8"
  shows "n = 8 \<or> n = 7 \<or> n = 6 \<or> n = 5 \<or> n = 4 \<or> n = 3 \<or> n = 2 \<or> n = 1"
proof -
  have eq: "word_of_nat k = n" if "unat n = k" for k
    using that by auto
  have "unat n \<noteq> 0" using assms(1) by (simp add: unat_eq_0)
  then have "unat n = 1 \<or> unat n = 2 \<or> unat n = 3 \<or> unat n = 4 \<or> unat n = 5 \<or>
      unat n = 6 \<or> unat n = 7 \<or> unat n = 8"
    using assms(2) by presburger
  then show ?thesis
    using eq [of 1] eq [of 2] eq [of 3] eq [of 4] eq [of 5] eq [of 6] eq [of 7] eq [of 8]
    by (elim disjE) simp_all
qed

lemma fill_step:
  assumes "i < length xs"
  shows "(replicate i u @ drop i xs)[i := u] = replicate (Suc i) u @ drop (Suc i) xs"
proof -
  have "drop i xs = xs ! i # drop (Suc i) xs"
    using assms by (simp add: Cons_nth_drop_Suc)
  then have "(replicate i u @ drop i xs)[i := u] = replicate i u @ u # drop (Suc i) xs"
    by (simp add: list_update_append)
  also have "\<dots> = replicate (Suc i) u @ drop (Suc i) xs"
    by (simp add: replicate_append_same)
  finally show ?thesis .
qed

lemma normalize_uniform:
  assumes n: "n \<noteq> 0" "unat n \<le> length outs"
    and nonneg: "\<forall>i<unat n. 0 \<le>s outs ! i"
    and small: "\<forall>i<unat n. \<forall>j<unat n. sint (outs ! i) - sint (outs ! j) < 65"
  shows "normalize_outputs outs n =
           Inr (replicate (unat n) (word_of_int (65536 sdiv sint n)) @ drop (unat n) outs)"
proof -
  let ?u = "word_of_int (65536 sdiv sint n) :: fixed_t"
  have pos: "0 < unat n" using n(1) by (simp add: unat_gt_0)
  have len0: "0 < length outs" using pos n(2) by linarith
  have first: "array_read outs 0 = Inr (outs ! 0)"
    using len0 by (simp add: array_read_def)
  have "\<exists>t. for_loop [1..<unat n]
          (\<lambda>i (max_val, min_val).
             bind_res (array_read outs i) (\<lambda>x.
               let max_val = (if max_val <s x then x else max_val);
                   min_val = (if x <s min_val then x else min_val)
               in Inr (max_val, min_val)))
          (outs ! 0, outs ! 0) = Inr t \<and>
        (\<exists>a<unat n. fst t = outs ! a) \<and> (\<exists>b<unat n. snd t = outs ! b)"
  proof (rule for_loop_invariant
      [where I = "\<lambda>i t. (\<exists>a<unat n. fst t = outs ! a) \<and> (\<exists>b<unat n. snd t = outs ! b)"])
    show "(\<exists>a<unat n. fst (outs ! 0, outs ! 0) = outs ! a) \<and>
          (\<exists>b<unat n. snd (outs ! 0, outs ! 0) = outs ! b)"
      using pos by auto
    show "1 \<le> unat n" using pos by simp
  next
    fix i t
    assume i: "1 \<le> i" "i < unat n"
      and I: "(\<exists>a<unat n. fst t = outs ! a) \<and> (\<exists>b<unat n. snd t = outs ! b)"
    have "i < length outs" using i n(2) by simp
    then show "\<exists>t'. (case t of (max_val, min_val) \<Rightarrow>
             bind_res (array_read outs i) (\<lambda>x.
               let max_val = (if max_val <s x then x else max_val);
                   min_val = (if x <s min_val then x else min_val)
               in Inr (max_val, min_val))) = Inr t' \<and>
          (\<exists>a<unat n. fst t' = outs ! a) \<and> (\<exists>b<unat n. snd t' = outs ! b)"
      using I i by (cases t) (auto simp add: array_read_def Let_def)
  qed
  then obtain mx mn a b where mm: "for_loop [1..<unat n]
          (\<lambda>i (max_val, min_val).
             bind_res (array_read outs i) (\<lambda>x.
               let max_val = (if max_val <s x then x else max_val);
                   min_val = (if x <s min_val then x else min_val)
               in Inr (max_val, min_val)))
          (outs ! 0, outs ! 0) = Inr (mx, mn)"
    and a: "a < unat n" "mx = outs ! a" and b: "b < unat n" "mn = outs ! b"
    by force
  have "sint (mx - mn) = sint mx - sint mn"
    using nonneg a b by (simp add: sint_diff_nonneg)
  then have range: "mx - mn <s float_to_fixed f32_0_001"
    using small a b by (simp add: word_sless_alt float_to_fixed_0_001)
  have uniform: "div_s32 FIXED_ONE (ucast n) = Inr ?u"
    using n(1) by (simp add: div_s32_def FIXED_ONE_eq)
  have "\<exists>t. for_loop [0..<unat n] (\<lambda>i outs. array_write outs i ?u) outs = Inr t \<and>
      t = replicate (unat n) ?u @ drop (unat n) outs"
  proof (rule for_loop_invariant [where I = "\<lambda>i t. t = replicate i ?u @ drop i outs"])
    show "outs = replicate 0 ?u @ drop 0 outs"
      by simp
    show "0 \<le> unat n"
      by simp
  next
    fix i and t :: "fixed_t list"
    assume i: "i < unat n" and t: "t = replicate i ?u @ drop i outs"
    have lt: "i < length outs"
      using i n(2) by simp
    then have "i < length t"
      unfolding t by simp
    then have "array_write t i ?u = Inr (t[i := ?u])"
      by (simp add: array_write_def)
    moreover have "t[i := ?u] = replicate (Suc i) ?u @ drop (Suc i) outs"
      unfolding t using lt by (rule fill_step)
    ultimately show "\<exists>t'. array_write t i ?u = Inr t' \<and>
        t' = replicate (Suc i) ?u @ drop (Suc i) outs"
      by simp
  qed
  then have fill: "for_loop [0..<unat n] (\<lambda>i outs. array_write outs i ?u) outs =
      Inr (replicate (unat n) ?u @ drop (unat n) outs)"
    by blast
  show ?thesis
    unfolding normalize_outputs_def first bind_res.simps mm
    using range uniform fill by (simp add: Let_def)
qed

lemma argmax_uniform:
  assumes n: "n \<noteq> 0" "unat n \<le> length outs" and same: "\<forall>i<unat n. outs ! i = u"
  shows "argmax outs n = Inr 0"
proof -
  have pos: "0 < unat n" using n(1) by (simp add: unat_gt_0)
  have len0: "0 < length outs" using pos n(2) by linarith
  have first: "array_read outs 0 = Inr u"
    using len0 pos same by (simp add: array_read_def)
  have "\<exists>t. for_loop [1..<unat n]
          (\<lambda>i (max_idx, max_val).
             bind_res (array_read outs i) (\<lambda>x.
               if max_val <s x then Inr (word_of_nat i, x) else Inr (max_idx, max_val)))
          (0 :: uint8_t, u) = Inr t \<and> t = (0, u)"
    by (rule for_loop_invariant [where I = "\<lambda>i t. t = (0, u)"])
      (use pos n(2) same in \<open>auto simp add: array_read_def word_sless_alt\<close>)
  then show ?thesis
    unfolding argmax_def first bind_res.simps by simp
qed

lemma output_spread_bound:
  assumes "i < n" and "j < n" and "n \<le> length xs"
  shows "sint (xs ! i) - sint (xs ! j) \<le> output_spread (take n xs)"
proof -
  have "xs ! i \<in> set (take n xs)" and "xs ! j \<in> set (take n xs)"
    using assms by (auto simp add: in_set_conv_nth)
  then have "sint (xs ! i) \<le> Max (sint ` set (take n xs))"
    and "Min (sint ` set (take n xs)) \<le> sint (xs ! j)"
    by simp_all
  then show ?thesis
    unfolding output_spread_def by linarith
qed

text \<open>
  C8, as stated, fails for an engine configured with sixteen classes: all its raw outputs
  are 0, and the confidence returned is 8192, one eighth, where
  \<^verbatim>\<open>1 / output_size\<close> is 4096.
\<close>

theorem uniform_value_beyond_eight_classes:
  "raw_outputs engine_wide [128] = Inr [0, 0, 0, 0, 0, 0, 0, 0] \<and>
   run engine_wide [128] 1 = Inr \<lparr> confidence = 8192, predicted_class = 0 \<rparr> \<and>
   FIXED_ONE div output_size engine_wide = 4096"
  by code_simp

text \<open>
  C8, amended. When the engine has at least one class and the raw outputs (after clamping
  at 0) of the classes that \<^verbatim>\<open>run\<close> evaluates, the first
  \<^verbatim>\<open>min(output_size, 8)\<close>, differ by less than \<^verbatim>\<open>float_to_fixed(0.001f)\<close>,
  normalization sets each of those outputs to the uniform value
  \<^verbatim>\<open>FIXED_ONE / min(output_size, 8)\<close> and leaves the rest of the array as it was,
  and \<^verbatim>\<open>run\<close> returns class 0 with that value as confidence.
\<close>

theorem run_uniform_when_outputs_near_equal:
  assumes "num_features = input_size e"
    and "raw_outputs e features = Inr outs"
    and "output_size e \<noteq> 0"
    and "output_spread (take (unat (actual_outputs e)) outs) < sint (float_to_fixed f32_0_001)"
  shows "normalize_outputs outs (actual_outputs e) =
           Inr (replicate (unat (actual_outputs e))
                  (word_of_nat (65536 div unat (actual_outputs e)))
                @ drop (unat (actual_outputs e)) outs) \<and>
         run e features num_features =
           Inr \<lparr> confidence = word_of_nat (65536 div unat (actual_outputs e)),
                 predicted_class = 0 \<rparr> \<and>
         unat (actual_outputs e) = min (unat (output_size e)) 8"
proof -
  let ?n = "actual_outputs e"
  let ?u = "word_of_nat (65536 div unat ?n) :: fixed_t"
  let ?outs' = "replicate (unat ?n) ?u @ drop (unat ?n) outs"
  have n: "?n \<noteq> 0" "unat ?n \<le> 8"
    using assms(3) by (simp_all add: actual_outputs_pos actual_outputs_le)
  have len: "length outs = 8" and nonneg: "\<forall>i<unat ?n. 0 \<le>s outs ! i"
    using raw_outputs_props [OF assms(2)] by simp_all
  have small: "\<forall>i<unat ?n. \<forall>j<unat ?n. sint (outs ! i) - sint (outs ! j) < 65"
  proof (intro allI impI)
    fix i j assume "i < unat ?n" and "j < unat ?n"
    then have "sint (outs ! i) - sint (outs ! j) \<le> output_spread (take (unat ?n) outs)"
      by (rule output_spread_bound) (use n len in simp)
    then show "sint (outs ! i) - sint (outs ! j) < 65"
      using assms(4) by (simp add: float_to_fixed_0_001)
  qed
  have vals: "(word_of_int (65536 sdiv sint ?n) :: fixed_t) = ?u
      \<and> \<not> FIXED_ONE <s ?u \<and> \<not> ?u <s 0"
    using small_count_cases [OF n]
    by (elim disjE) (simp_all add: signed_divide_int_def FIXED_ONE_eq word_sless_alt)
  have "normalize_outputs outs ?n =
      Inr (replicate (unat ?n) (word_of_int (65536 sdiv sint ?n)) @ drop (unat ?n) outs)"
    by (rule normalize_uniform) (use n len nonneg small in simp_all)
  then have norm: "normalize_outputs outs ?n = Inr ?outs'"
    using vals by simp
  have len': "length ?outs' = 8"
    using n(2) len by simp
  have same: "\<forall>i<unat ?n. ?outs' ! i = ?u"
    by (simp add: nth_append)
  have arg: "argmax ?outs' ?n = Inr 0"
    by (rule argmax_uniform [OF n(1) _ same]) (use n len' in simp)
  have pos: "0 < unat ?n"
    using n(1) by (simp add: unat_gt_0)
  have "0 < length ?outs'"
    unfolding len' by simp
  then have "array_read ?outs' 0 = Inr (?outs' ! 0)"
    unfolding array_read_def by (simp only: if_True)
  then have conf: "array_read ?outs' 0 = Inr ?u"
    using same pos by simp
  have result: "run e features num_features =
      Inr \<lparr> confidence = ?u, predicted_class = 0 \<rparr>"
    unfolding run_def using assms(1) vals
    by (simp add: assms(2) norm arg conf Let_def del: replicate.simps drop_append)
  have cap: "unat ?n = min (unat (output_size e)) 8"
    by (simp add: actual_outputs_def MAX_OUTPUTS_def word_less_nat_alt)
  show ?thesis
    using norm result cap by (intro conjI)
qed

theorem run_uniform_when_outputs_near_equal_witness:
  "1 = input_size engine_three \<and>
   raw_outputs engine_three [128] = Inr [10, 20, 30, 0, 0, 0, 0, 0] \<and>
   output_size engine_three \<noteq> 0 \<and>
   output_spread (take (unat (actual_outputs engine_three)) [10, 20, 30, 0, 0, 0, 0, 0])
     < sint (float_to_fixed f32_0_001) \<and>
   normalize_outputs [10, 20, 30, 0, 0, 0, 0, 0] (actual_outputs engine_three) =
     Inr [21845, 21845, 21845, 0, 0, 0, 0, 0] \<and>
   run engine_three [128] 1 = Inr \<lparr> confidence = 21845, predicted_class = 0 \<rparr>"
proof -
  have h1: "1 = input_size engine_three"
    by (simp add: engine_three_def)
  have h2: "raw_outputs engine_three [128] = Inr [10, 20, 30, 0, 0, 0, 0, 0]"
    by code_simp
  have h3: "output_size engine_three \<noteq> 0"
    by (simp add: engine_three_def)
  have n: "unat (actual_outputs engine_three) = 3"
    by (simp add: actual_outputs_def MAX_OUTPUTS_def engine_three_def)
  have h4: "output_spread (take (unat (actual_outputs engine_three)) [10, 20, 30, 0, 0, 0, 0, 0])
      < sint (float_to_fixed f32_0_001)"
    by (simp add: n output_spread_def float_to_fixed_0_001)
  have u: "(word_of_nat (65536 div 3) :: fixed_t) = 21845"
    by simp
  have r: "replicate 3 x @ drop 3 [a, b, c, d, e, f, g, h] = [x, x, x, d, e, f, g, h]"
    for x a b c d e f g h :: fixed_t
    by (simp add: numeral_3_eq_3)
  note t = run_uniform_when_outputs_near_equal [OF h1 h2 h3 h4, unfolded n u r]
  show ?thesis
    using h1 h2 h3 h4 t by blast
qed

section \<open>Feature extraction\<close>

lemma s64_id: "- (2 ^ 63) \<le> k \<Longrightarrow> k < 2 ^ 63 \<Longrightarrow> s64 k = k"
  unfolding s64_def by (rule signed_take_bit_int_eq_self)

lemma sint_of_int_small:
  "- (2 ^ 31) \<le> k \<Longrightarrow> k < 2 ^ 31 \<Longrightarrow> sint (word_of_int k :: fixed_t) = k"
  by (simp add: sint_sbintrunc' signed_take_bit_int_eq_self)

lemma sint_diff_small:
  fixes a b :: fixed_t
  shows "- (2 ^ 31) \<le> sint a - sint b \<Longrightarrow> sint a - sint b < 2 ^ 31 \<Longrightarrow>
         sint (a - b) = sint a - sint b"
  by (simp add: sint_word_diff signed_take_bit_int_eq_self)

lemma sint_mult_small:
  fixes a b :: fixed_t
  shows "- (2 ^ 31) \<le> sint a * sint b \<Longrightarrow> sint a * sint b < 2 ^ 31 \<Longrightarrow>
         sint (a * b) = sint a * sint b"
  by (simp add: sint_word_mult signed_take_bit_int_eq_self)

lemma sint_minus_small:
  fixes a :: fixed_t
  shows "- (2 ^ 31) < sint a \<Longrightarrow> sint (- a) = - sint a"
  using sint_lt [of a] by (simp add: sint_word_minus signed_take_bit_int_eq_self)

lemma sint_low_byte:
  fixes a :: fixed_t
  shows "0 \<le> sint (a AND 255) \<and> sint (a AND 255) \<le> 255"
proof -
  define u where "u = uint (a AND 255)"
  have "a AND 255 \<le> 255"
    by (rule word_and_le1)
  then have le: "u \<le> 255"
    by (simp add: word_le_def u_def)
  have ge: "0 \<le> u"
    by (simp add: u_def)
  have "sint (a AND 255) = signed_take_bit 31 u"
    by (simp add: sint_uint u_def)
  also have "\<dots> = u"
    by (rule signed_take_bit_int_eq_self) (use le ge in simp_all)
  finally show ?thesis
    using le ge by simp
qed

lemma fast_sin_abs: "\<bar>sint (fast_sin a)\<bar> \<le> 65536"
proof -
  define x0 where "x0 = a AND 255"
  define x1 where "x1 = (if 128 <s x0 then 256 - x0 else x0)"
  define x2 where "x2 = (if 64 <s x1 then 128 - x1 else x1)"
  define r where "r = (word_of_int (sint (x2 * FIXED_ONE) sdiv 64) :: fixed_t)"
  have x0: "0 \<le> sint x0" "sint x0 \<le> 255"
    using sint_low_byte [of a] by (simp_all add: x0_def)
  have x1: "0 \<le> sint x1" "sint x1 \<le> 128"
    using x0 by (auto simp add: x1_def word_sless_alt sint_diff_small)
  have x2: "0 \<le> sint x2" "sint x2 \<le> 64"
    using x1 by (auto simp add: x2_def word_sless_alt sint_diff_small)
  have "sint (x2 * FIXED_ONE) = sint x2 * 65536"
    using x2 by (simp add: FIXED_ONE_eq sint_mult_small)
  then have q: "sint (x2 * FIXED_ONE) sdiv 64 = sint x2 * 1024"
    using x2 by (simp add: signed_divide_int_def sgn_if)
  have "sint r = sint x2 * 1024"
    unfolding r_def q by (rule sint_of_int_small) (use x2 in simp_all)
  then have r: "0 \<le> sint r" "sint r \<le> 65536"
    using x2 by simp_all
  have "fast_sin a = (if 128 < x0 then - r else r)"
    by (simp add: fast_sin_def Let_def x0_def x1_def x2_def r_def)
  then show ?thesis
    using r by (simp add: sint_minus_small)
qed

lemma fast_cos_abs: "\<bar>sint (fast_cos a)\<bar> \<le> 65536"
  unfolding fast_cos_def by (rule fast_sin_abs)

lemma sample_abs: "\<bar>sint (s :: int16_t)\<bar> \<le> 32768"
  using sint_ge [of s] sint_lt [of s] by simp

lemma term_abs:
  fixes s :: int16_t and c :: fixed_t
  assumes "\<bar>sint c\<bar> \<le> 65536"
  shows "\<bar>sint s * sint c\<bar> \<le> 2 ^ 31"
proof -
  have "\<bar>sint s * sint c\<bar> = \<bar>sint s\<bar> * \<bar>sint c\<bar>"
    by (rule abs_mult)
  also have "\<dots> \<le> 32768 * 65536"
    by (rule mult_mono) (use assms sample_abs in simp_all)
  finally show ?thesis by simp
qed


lemma abs_sdiv: "\<bar>a sdiv b\<bar> = \<bar>a\<bar> div \<bar>b\<bar>" for a b :: int
  by (cases "a = 0"; cases "b = 0")
    (simp_all add: signed_divide_int_def abs_mult div_int_pos_iff)

lemma sdiv_nonneg: "0 \<le> a \<Longrightarrow> 0 \<le> b \<Longrightarrow> a sdiv b = a div b" for a b :: int
  by (simp add: signed_divide_int_def sgn_if)

lemma correlate_loop:
  fixes window :: "int16_t list"
  assumes "unat n \<le> length window"
  shows "\<exists>t. for_loop [0..<unat (n :: size_t)]
               (\<lambda>j (real_sum, imag_sum).
                  let angle = (freq_mult * word_of_nat j) mod 256;
                      cos_val = fast_cos angle;
                      sin_val = fast_sin angle
                  in bind_res (ptr_read (Some window) j) (\<lambda>sample.
                       Inr (s64 (real_sum + sint sample * sint cos_val),
                            s64 (imag_sum + sint sample * sint sin_val))))
               (0, 0) = Inr t \<and>
             \<bar>fst t\<bar> \<le> int (unat n) * 2 ^ 31 \<and> \<bar>snd t\<bar> \<le> int (unat n) * 2 ^ 31"
proof (rule for_loop_invariant
    [where I = "\<lambda>j t. \<bar>fst t\<bar> \<le> int j * 2 ^ 31 \<and> \<bar>snd t\<bar> \<le> int j * 2 ^ 31"])
  show "\<bar>fst (0 :: int, 0 :: int)\<bar> \<le> int 0 * 2 ^ 31 \<and> \<bar>snd (0 :: int, 0 :: int)\<bar> \<le> int 0 * 2 ^ 31"
    by simp
  show "0 \<le> unat n"
    by simp
next
  fix j and t :: "int \<times> int"
  assume j: "j < unat n" and I: "\<bar>fst t\<bar> \<le> int j * 2 ^ 31 \<and> \<bar>snd t\<bar> \<le> int j * 2 ^ 31"
  obtain re im where t: "t = (re, im)"
    by (cases t)
  define angle where "angle = (freq_mult * word_of_nat j) mod (256 :: uint32_t)"
  define c where "c = sint (window ! j) * sint (fast_cos angle)"
  define d where "d = sint (window ! j) * sint (fast_sin angle)"
  have "unat n < 2 ^ 32"
    using unsigned_less [of n, where 'a = nat] by simp
  then have jb: "int j + 1 \<le> 4294967295"
    using j by simp
  have c: "\<bar>c\<bar> \<le> 2 ^ 31"
    unfolding c_def by (rule term_abs) (rule fast_cos_abs)
  have d: "\<bar>d\<bar> \<le> 2 ^ 31"
    unfolding d_def by (rule term_abs) (rule fast_sin_abs)
  have re: "\<bar>re + c\<bar> \<le> (int j + 1) * 2 ^ 31" and im: "\<bar>im + d\<bar> \<le> (int j + 1) * 2 ^ 31"
    using I c d unfolding t by (auto simp add: algebra_simps)
  have "(int j + 1) * 2 ^ 31 \<le> 4294967295 * (2 ^ 31 :: int)"
    using jb by (rule mult_right_mono) simp
  then have "\<bar>re + c\<bar> < 2 ^ 63" and "\<bar>im + d\<bar> < 2 ^ 63"
    using re im by simp_all
  then have s: "s64 (re + c) = re + c" "s64 (im + d) = im + d"
    by (simp_all add: s64_id)
  have read: "ptr_read (Some window) j = Inr (window ! j)"
    using j assms by (simp add: ptr_read_def array_read_def)
  have "(case t of (real_sum, imag_sum) \<Rightarrow>
                  let angle = (freq_mult * word_of_nat j) mod 256;
                      cos_val = fast_cos angle;
                      sin_val = fast_sin angle
                  in bind_res (ptr_read (Some window) j) (\<lambda>sample.
                       Inr (s64 (real_sum + sint sample * sint cos_val),
                            s64 (imag_sum + sint sample * sint sin_val)))) = Inr (re + c, im + d)"
    unfolding t by (simp add: Let_def read s [unfolded c_def d_def angle_def] c_def d_def angle_def)
  moreover have "\<bar>fst (re + c, im + d)\<bar> \<le> int (Suc j) * 2 ^ 31 \<and>
      \<bar>snd (re + c, im + d)\<bar> \<le> int (Suc j) * 2 ^ 31"
    using re im by (simp add: algebra_simps)
  ultimately show "\<exists>t'. (case t of (real_sum, imag_sum) \<Rightarrow>
                  let angle = (freq_mult * word_of_nat j) mod 256;
                      cos_val = fast_cos angle;
                      sin_val = fast_sin angle
                  in bind_res (ptr_read (Some window) j) (\<lambda>sample.
                       Inr (s64 (real_sum + sint sample * sint cos_val),
                            s64 (imag_sum + sint sample * sint sin_val)))) = Inr t' \<and>
          \<bar>fst t'\<bar> \<le> int (Suc j) * 2 ^ 31 \<and> \<bar>snd t'\<bar> \<le> int (Suc j) * 2 ^ 31"
    by blast
qed

lemma average_bound:
  assumes "n \<noteq> 0" and "\<bar>a\<bar> \<le> int (unat (n :: size_t)) * 2 ^ 31"
  shows "div_s64 a (uint n) = Inr (a sdiv uint n)" and "\<bar>a sdiv uint n\<bar> \<le> 2 ^ 31"
proof -
  have "uint n \<noteq> 0"
    using assms(1) by (simp add: uint_0_iff)
  then have pos: "0 < uint n"
    using unsigned_greater_eq [of n, where 'a = int] by linarith
  have "\<bar>a\<bar> div uint n \<le> (uint n * 2 ^ 31) div uint n"
    using assms(2) by (intro zdiv_mono1 pos) simp
  then have b: "\<bar>a sdiv uint n\<bar> \<le> 2 ^ 31"
    using pos by (simp add: abs_sdiv)
  then show "\<bar>a sdiv uint n\<bar> \<le> 2 ^ 31" .
  have "s64 (a sdiv uint n) = a sdiv uint n"
    by (rule s64_id) (use b in simp_all)
  then show "div_s64 a (uint n) = Inr (a sdiv uint n)"
    using pos by (simp add: div_s64_def)
qed

lemma bin_magnitude_nonneg:
  assumes "\<bar>a\<bar> \<le> 2 ^ 31" and "\<bar>b\<bar> \<le> 2 ^ 31"
  shows "0 \<le> sint (bin_magnitude a b)"
proof -
  define A where "A = (if 0 \<le> a then a else s64 (- a))"
  define B where "B = (if 0 \<le> b then b else s64 (- b))"
  define M where "M = (if B < A then A else B)"
  define m where "m = (if A < B then A else B)"
  have "s64 (- a) = - a" and "s64 (- b) = - b"
    by (rule s64_id; use assms in simp)+
  then have A: "0 \<le> A" "A \<le> 2 ^ 31" and B: "0 \<le> B" "B \<le> 2 ^ 31"
    using assms by (auto simp add: A_def B_def)
  then have M: "0 \<le> M" "M \<le> 2 ^ 31" and m: "0 \<le> m" "m \<le> 2 ^ 31"
    by (simp_all add: M_def m_def)
  have m4: "s64 (m * 4) = m * 4"
    by (rule s64_id) (use m in simp_all)
  have q: "0 \<le> (m * 4) div 10" "(m * 4) div 10 \<le> 2 ^ 33"
    using m by simp_all
  have q': "(m * 4) sdiv 10 = (m * 4) div 10"
    by (rule sdiv_nonneg) (use m in simp_all)
  have sum: "s64 (M + (m * 4) div 10) = M + (m * 4) div 10"
    by (rule s64_id) (use M q in simp_all)
  define v where "v = drop_bit FIXED_SHIFT (M + (m * 4) div 10)"
  have v: "0 \<le> v" "v < 2 ^ 31"
    using M q by (simp_all add: v_def FIXED_SHIFT_def drop_bit_eq_div)
  have "bin_magnitude a b =
      word_of_int (drop_bit FIXED_SHIFT (s64 (M + s64 (m * 4) sdiv 10)))"
    by (simp only: bin_magnitude_def Let_def A_def B_def M_def m_def)
  also have "\<dots> = word_of_int v"
    by (simp only: m4 q' sum v_def)
  finally show ?thesis
    using v by (simp add: sint_of_int_small)
qed


lemma spectrum_defined:
  fixes window :: "int16_t list"
  assumes "n \<noteq> 0" and "unat n \<le> length window" and "unat (num_bins p) \<le> length features"
  shows "\<exists>mags. compute_magnitude_spectrum p (Some window) n features = Inr mags \<and>
           (length mags = length features \<and> (\<forall>k<unat (num_bins p). 0 \<le> sint (mags ! k)))"
  unfolding compute_magnitude_spectrum_def
proof (rule for_loop_invariant
    [where I = "\<lambda>k t. length t = length features \<and> (\<forall>j<k. 0 \<le> sint (t ! j))"])
  show "length features = length features \<and> (\<forall>j<0. 0 \<le> sint (features ! j))"
    by simp
  show "0 \<le> unat (num_bins p)"
    by simp
next
  fix k and t :: "fixed_t list"
  assume k: "k < unat (num_bins p)"
    and I: "length t = length features \<and> (\<forall>j<k. 0 \<le> sint (t ! j))"
  define freq_mult where "freq_mult = (word_of_nat k * 256) div num_bins p"
  obtain re im where loop: "for_loop [0..<unat n]
               (\<lambda>j (real_sum, imag_sum).
                  let angle = (freq_mult * word_of_nat j) mod 256;
                      cos_val = fast_cos angle;
                      sin_val = fast_sin angle
                  in bind_res (ptr_read (Some window) j) (\<lambda>sample.
                       Inr (s64 (real_sum + sint sample * sint cos_val),
                            s64 (imag_sum + sint sample * sint sin_val))))
               (0, 0) = Inr (re, im)"
    and re: "\<bar>re\<bar> \<le> int (unat n) * 2 ^ 31" and im: "\<bar>im\<bar> \<le> int (unat n) * 2 ^ 31"
    using correlate_loop [OF assms(2), of freq_mult] by force
  note avg_re = average_bound [OF assms(1) re] and avg_im = average_bound [OF assms(1) im]
  define v where "v = bin_magnitude (re sdiv uint n) (im sdiv uint n)"
  have v: "0 \<le> sint v"
    unfolding v_def using avg_re(2) avg_im(2) by (rule bin_magnitude_nonneg)
  have "k < length t"
    using k I assms(3) by simp
  then have wr: "array_write t k v = Inr (t[k := v])"
    by (simp add: array_write_def)
  have "(let freq_mult = (word_of_nat k * 256) div num_bins p in
          bind_res
            (for_loop [0..<unat n]
               (\<lambda>n (real_sum, imag_sum).
                  let angle = (freq_mult * word_of_nat n) mod 256;
                      cos_val = fast_cos angle;
                      sin_val = fast_sin angle
                  in bind_res (ptr_read (Some window) n) (\<lambda>sample.
                       Inr (s64 (real_sum + sint sample * sint cos_val),
                            s64 (imag_sum + sint sample * sint sin_val))))
               (0, 0))
            (\<lambda>(real_sum, imag_sum).
               bind_res (div_s64 real_sum (uint n)) (\<lambda>real_sum.
               bind_res (div_s64 imag_sum (uint n)) (\<lambda>imag_sum.
                 array_write t k (bin_magnitude real_sum imag_sum))))) = Inr (t[k := v])"
    unfolding Let_def freq_mult_def [symmetric] loop [unfolded Let_def]
    by (simp add: avg_re(1) avg_im(1) wr [unfolded v_def] v_def)
  moreover have "length (t[k := v]) = length features \<and> (\<forall>j<Suc k. 0 \<le> sint (t[k := v] ! j))"
    using I v \<open>k < length t\<close> by (auto simp add: nth_list_update less_Suc_eq)
  ultimately show "\<exists>t'. (let freq_mult = (word_of_nat k * 256) div num_bins p in
          bind_res
            (for_loop [0..<unat n]
               (\<lambda>n (real_sum, imag_sum).
                  let angle = (freq_mult * word_of_nat n) mod 256;
                      cos_val = fast_cos angle;
                      sin_val = fast_sin angle
                  in bind_res (ptr_read (Some window) n) (\<lambda>sample.
                       Inr (s64 (real_sum + sint sample * sint cos_val),
                            s64 (imag_sum + sint sample * sint sin_val))))
               (0, 0))
            (\<lambda>(real_sum, imag_sum).
               bind_res (div_s64 real_sum (uint n)) (\<lambda>real_sum.
               bind_res (div_s64 imag_sum (uint n)) (\<lambda>imag_sum.
                 array_write t k (bin_magnitude real_sum imag_sum))))) = Inr t' \<and>
         length t' = length features \<and> (\<forall>j<Suc k. 0 \<le> sint (t' ! j))"
    by blast
qed

lemma max_loop:
  fixes mags :: "fixed_t list"
  assumes "nb \<le> length mags"
  shows "\<exists>mv. for_loop [0..<nb]
             (\<lambda>i max_val.
                bind_res (array_read mags i) (\<lambda>x.
                  Inr (if max_val <s x then x else max_val)))
             (0 :: fixed_t) = Inr mv \<and>
          (0 \<le> sint mv \<and> (\<forall>k<nb. sint (mags ! k) \<le> sint mv) \<and>
           (mv = 0 \<or> (\<exists>k<nb. mv = mags ! k)))"
  by (rule for_loop_invariant
      [where I = "\<lambda>i mv. 0 \<le> sint mv \<and> (\<forall>k<i. sint (mags ! k) \<le> sint mv) \<and>
           (mv = 0 \<or> (\<exists>k<i. mv = mags ! k))"])
    (use assms in \<open>auto simp add: array_read_def word_sless_alt less_Suc_eq\<close>)

lemma scaled_bound:
  fixes a m :: int
  assumes "0 \<le> a" and "a \<le> m" and "0 < m"
  shows "0 \<le> (a * 65536) div m" and "(a * 65536) div m \<le> 65536"
proof -
  show "0 \<le> (a * 65536) div m"
    using assms by (simp add: pos_imp_zdiv_nonneg_iff)
  have "(a * 65536) div m \<le> (m * 65536) div m"
    using assms by (intro zdiv_mono1) simp_all
  then show "(a * 65536) div m \<le> 65536"
    using assms by simp
qed

lemma scale_loop:
  fixes mags :: "fixed_t list"
  assumes "nb \<le> length mags" and "0 < sint mv"
    and "\<forall>k<nb. 0 \<le> sint (mags ! k) \<and> sint (mags ! k) \<le> sint mv"
  shows "\<exists>feats. for_loop [0..<nb]
                    (\<lambda>i feats.
                       bind_res (array_read feats i) (\<lambda>x.
                       bind_res (div_s64 (sint x * sint FIXED_ONE) (sint mv)) (\<lambda>q.
                         array_write feats i (word_of_int q))))
                    mags = Inr feats \<and>
            (length feats = length mags \<and>
             (\<forall>k<nb. sint (feats ! k) = (sint (mags ! k) * 65536) div sint (mv :: fixed_t)) \<and>
             (\<forall>k. nb \<le> k \<longrightarrow> feats ! k = mags ! k))"
proof (rule for_loop_invariant
    [where I = "\<lambda>i t. length t = length mags \<and>
             (\<forall>k<i. sint (t ! k) = (sint (mags ! k) * 65536) div sint mv) \<and>
             (\<forall>k. i \<le> k \<longrightarrow> t ! k = mags ! k)"])
  show "length mags = length mags \<and>
             (\<forall>k<0. sint (mags ! k) = (sint (mags ! k) * 65536) div sint mv) \<and>
             (\<forall>k. 0 \<le> k \<longrightarrow> mags ! k = mags ! k)"
    by simp
  show "0 \<le> nb" by simp
next
  fix i and t :: "fixed_t list"
  assume i: "i < nb" and I: "length t = length mags \<and>
             (\<forall>k<i. sint (t ! k) = (sint (mags ! k) * 65536) div sint mv) \<and>
             (\<forall>k. i \<le> k \<longrightarrow> t ! k = mags ! k)"
  define q where "q = (sint (mags ! i) * 65536) div sint mv"
  have lt: "i < length t" using i I assms(1) by simp
  have ti: "t ! i = mags ! i" using I by simp
  have a: "0 \<le> sint (mags ! i)" "sint (mags ! i) \<le> sint mv"
    using assms(3) i by simp_all
  have q: "0 \<le> q" "q \<le> 65536"
    unfolding q_def using a assms(2) by (rule scaled_bound)+
  have "(sint (mags ! i) * 65536) sdiv sint mv = q"
    unfolding q_def by (rule sdiv_nonneg) (use a assms(2) in simp_all)
  moreover have "s64 q = q"
    by (rule s64_id) (use q in simp_all)
  ultimately have d: "div_s64 (sint (mags ! i) * sint FIXED_ONE) (sint mv) = Inr q"
    using assms(2) by (simp add: div_s64_def FIXED_ONE_eq)
  have sq: "sint (word_of_int q :: fixed_t) = q"
    by (rule sint_of_int_small) (use q in simp_all)
  have "bind_res (array_read t i) (\<lambda>x.
          bind_res (div_s64 (sint x * sint FIXED_ONE) (sint mv)) (\<lambda>q.
            array_write t i (word_of_int q))) = Inr (t[i := word_of_int q])"
    using lt by (simp add: array_read_def array_write_def ti d)
  moreover have "length (t[i := word_of_int q]) = length mags \<and>
             (\<forall>k<Suc i. sint (t[i := word_of_int q] ! k) = (sint (mags ! k) * 65536) div sint mv) \<and>
             (\<forall>k. Suc i \<le> k \<longrightarrow> t[i := word_of_int q] ! k = mags ! k)"
    using I lt sq by (auto simp add: nth_list_update less_Suc_eq q_def)
  ultimately show "\<exists>t'. bind_res (array_read t i) (\<lambda>x.
          bind_res (div_s64 (sint x * sint FIXED_ONE) (sint mv)) (\<lambda>q.
            array_write t i (word_of_int q))) = Inr t' \<and>
          length t' = length mags \<and>
             (\<forall>k<Suc i. sint (t' ! k) = (sint (mags ! k) * 65536) div sint mv) \<and>
             (\<forall>k. Suc i \<le> k \<longrightarrow> t' ! k = mags ! k)"
    by blast
qed


lemma Max_take:
  fixes f :: "'a \<Rightarrow> int"
  assumes "nb \<le> length xs" and "k < nb" and "f (xs ! k) = M" and "\<forall>j<nb. f (xs ! j) \<le> M"
  shows "Max (f ` set (take nb xs)) = M"
proof (rule Max_eqI)
  show "finite (f ` set (take nb xs))"
    by simp
  show "y \<le> M" if "y \<in> f ` set (take nb xs)" for y
    using that assms(1,4) by (auto simp add: in_set_conv_nth)
  have "xs ! k \<in> set (take nb xs)"
    using assms(1,2) by (auto simp add: in_set_conv_nth)
  then show "M \<in> f ` set (take nb xs)"
    using assms(3) by blast
qed

lemma correlate_example_0:
  "for_loop [0..<unat (2 :: size_t)]
     (\<lambda>n (real_sum, imag_sum).
        bind_res (ptr_read (Some [1000, - 1000 :: int16_t]) n) (\<lambda>sample.
          Inr (s64 (real_sum + sint sample * sint (fast_cos ((0 * word_of_nat n) mod 256))),
               s64 (imag_sum + sint sample * sint (fast_sin ((0 * word_of_nat n) mod 256))))))
     (0, 0) = Inr (0, 0)"
  by code_simp

lemma correlate_example_1:
  "for_loop [0..<unat (2 :: size_t)]
     (\<lambda>n (real_sum, imag_sum).
        bind_res (ptr_read (Some [1000, - 1000 :: int16_t]) n) (\<lambda>sample.
          Inr (s64 (real_sum + sint sample * sint (fast_cos ((128 * word_of_nat n) mod 256))),
               s64 (imag_sum + sint sample * sint (fast_sin ((128 * word_of_nat n) mod 256))))))
     (0, 0) = Inr (131072000, 0)"
  by code_simp

lemma bin_example_0: "bin_magnitude 0 0 = 0"
  by code_simp

lemma bin_example_1: "bin_magnitude 65536000 0 = 1000"
  by code_simp

lemma spectrum_example:
  "compute_magnitude_spectrum processor_2 (Some [1000, - 1000]) 2 [0, 0, 7] = Inr [0, 1000, 7]"
proof -
  have "[0..<2] = [0, 1]"
    by (simp add: numeral_2_eq_2)
  moreover have "unat (num_bins processor_2) = 2"
    by (simp add: processor_2_def)
  ultimately have bins: "[0..<unat (num_bins processor_2)] = [0, 1]"
    by (simp only:)
  have f0: "(word_of_nat 0 * 256) div num_bins processor_2 = 0"
    and f1: "(word_of_nat 1 * 256) div num_bins processor_2 = 128"
    by (simp_all add: processor_2_def)
  have d0: "div_s64 0 (uint (2 :: size_t)) = Inr 0"
    and d1: "div_s64 131072000 (uint (2 :: size_t)) = Inr 65536000"
    by (simp_all add: div_s64_def s64_id signed_divide_int_def)
  have w0: "array_write [0, 0, 7 :: fixed_t] 0 0 = Inr [0, 0, 7]"
    and w1: "array_write [0, 0, 7 :: fixed_t] 1 1000 = Inr [0, 1000, 7]"
    by (simp_all add: array_write_def)
  show ?thesis
    unfolding compute_magnitude_spectrum_def bins for_loop.simps Let_def f0 f1
      correlate_example_0 correlate_example_1 bind_res.simps prod.case d0 d1
      bin_example_0 bin_example_1 w0 w1
    by (rule refl)
qed

text \<open>
  C6. For a window of \<open>num_samples > 0\<close> samples and a destination buffer that holds
  \<open>max_features \<ge> num_bins\<close> elements, \<^verbatim>\<open>extract_features\<close> returns
  \<^verbatim>\<open>num_bins\<close> and leaves in the buffer every computed magnitude scaled by
  \<^verbatim>\<open>FIXED_ONE\<close> and divided by the largest magnitude: if some magnitude is not 0,
  the largest feature is \<^verbatim>\<open>FIXED_ONE\<close>; if all magnitudes are 0, so are all
  features.
\<close>

theorem extract_features_normalizes:
  fixes window :: "int16_t list"
  assumes "num_samples \<noteq> 0" and "unat num_samples \<le> length window"
    and "num_bins p \<le> max_features" and "unat max_features \<le> length features"
  shows "\<exists>mags feats.
     compute_magnitude_spectrum p (Some window) num_samples features = Inr mags \<and>
     extract_features p (Some window) num_samples features max_features
       = Inr (num_bins p, feats) \<and>
     ((\<exists>k<unat (num_bins p). mags ! k \<noteq> 0) \<longrightarrow>
        Max (sint ` set (take (unat (num_bins p)) feats)) = sint FIXED_ONE \<and>
        (\<forall>k<unat (num_bins p).
           sint (feats ! k) =
             (sint (mags ! k) * sint FIXED_ONE) div
               Max (sint ` set (take (unat (num_bins p)) mags)))) \<and>
     ((\<forall>k<unat (num_bins p). mags ! k = 0) \<longrightarrow> (\<forall>k<unat (num_bins p). feats ! k = 0))"
proof -
  let ?nb = "unat (num_bins p)"
  have nb: "?nb \<le> length features"
    using assms(3,4) by (simp add: word_le_nat_alt)
  obtain mags where cms: "compute_magnitude_spectrum p (Some window) num_samples features = Inr mags"
    and len: "length mags = length features"
    and nonneg: "\<forall>k<?nb. 0 \<le> sint (mags ! k)"
    using spectrum_defined [OF assms(1,2) nb] by blast
  have nbm: "?nb \<le> length mags"
    using nb len by simp
  obtain mv where mx: "for_loop [0..<?nb]
             (\<lambda>i max_val.
                bind_res (array_read mags i) (\<lambda>x.
                  Inr (if max_val <s x then x else max_val)))
             (0 :: fixed_t) = Inr mv"
    and mv0: "0 \<le> sint mv" and ub: "\<forall>k<?nb. sint (mags ! k) \<le> sint mv"
    and att: "mv = 0 \<or> (\<exists>k<?nb. mv = mags ! k)"
    using max_loop [OF nbm] by blast
  have guard: "\<not> max_features < num_bins p"
    using assms(3) by simp
  show ?thesis
  proof (cases "0 <s mv")
    case True
    then have pos: "0 < sint mv"
      by (simp add: word_sless_alt)
    have "\<forall>k<?nb. 0 \<le> sint (mags ! k) \<and> sint (mags ! k) \<le> sint mv"
      using nonneg ub by simp
    then obtain feats where sl: "for_loop [0..<?nb]
                    (\<lambda>i feats.
                       bind_res (array_read feats i) (\<lambda>x.
                       bind_res (div_s64 (sint x * sint FIXED_ONE) (sint mv)) (\<lambda>q.
                         array_write feats i (word_of_int q))))
                    mags = Inr feats"
      and lenf: "length feats = length mags"
      and vals: "\<forall>k<?nb. sint (feats ! k) = (sint (mags ! k) * 65536) div sint mv"
      using scale_loop [OF nbm pos] by blast
    have ef: "extract_features p (Some window) num_samples features max_features
        = Inr (num_bins p, feats)"
      unfolding extract_features_def using guard True by (simp add: cms mx sl)
    obtain k where k: "k < ?nb" "mv = mags ! k"
      using att pos by auto
    have maxm: "Max (sint ` set (take ?nb mags)) = sint mv"
      by (rule Max_take [OF nbm k(1)]) (use k ub in simp_all)
    have "sint (feats ! k) = 65536"
      using vals k pos by simp
    moreover have "\<forall>j<?nb. sint (feats ! j) \<le> 65536"
    proof (intro allI impI)
      fix j assume j: "j < ?nb"
      have "(sint (mags ! j) * 65536) div sint mv \<le> 65536"
        by (rule scaled_bound) (use nonneg ub j pos in simp_all)
      then show "sint (feats ! j) \<le> 65536"
        using vals j by simp
    qed
    ultimately have maxf: "Max (sint ` set (take ?nb feats)) = 65536"
      using nbm lenf k(1) by (intro Max_take) simp_all
    have "\<not> (\<forall>k<?nb. mags ! k = 0)"
      using k pos by auto
    then show ?thesis
      using cms ef maxf maxm vals by (auto simp add: FIXED_ONE_eq)
  next
    case False
    then have "sint mv = 0"
      using mv0 by (simp add: word_sless_alt)
    then have "\<forall>k<?nb. sint (mags ! k) = 0"
      using nonneg ub by (simp add: order_antisym)
    then have zero: "\<forall>k<?nb. mags ! k = 0"
      by (simp add: signed_eq_0_iff)
    have ef: "extract_features p (Some window) num_samples features max_features
        = Inr (num_bins p, mags)"
      unfolding extract_features_def using guard False by (simp add: cms mx)
    show ?thesis
      using cms ef zero by auto
  qed
qed

theorem extract_features_normalizes_witness:
  "(2 :: size_t) \<noteq> 0 \<and> unat (2 :: size_t) \<le> length [1000, - 1000 :: int16_t] \<and>
   num_bins processor_2 \<le> 3 \<and> unat (3 :: size_t) \<le> length [0, 0, 7 :: fixed_t] \<and>
   compute_magnitude_spectrum processor_2 (Some [1000, - 1000]) 2 [0, 0, 7] = Inr [0, 1000, 7] \<and>
   (\<exists>feats. extract_features processor_2 (Some [1000, - 1000]) 2 [0, 0, 7] 3 = Inr (2, feats) \<and>
      Max (sint ` set (take 2 feats)) = 65536 \<and>
      sint (feats ! 0) = 0 \<and> sint (feats ! 1) = 65536)"
proof -
  have h1: "(2 :: size_t) \<noteq> 0"
    and h2: "unat (2 :: size_t) \<le> length [1000, - 1000 :: int16_t]"
    and h3: "num_bins processor_2 \<le> 3"
    and h4: "unat (3 :: size_t) \<le> length [0, 0, 7 :: fixed_t]"
    by (simp_all add: processor_2_def)
  have n2: "num_bins processor_2 = 2" and nb: "unat (2 :: size_t) = 2"
    by (simp_all add: processor_2_def)
  obtain mags feats where
    m: "compute_magnitude_spectrum processor_2 (Some [1000, - 1000]) 2 [0, 0, 7] = Inr mags"
    and f: "extract_features processor_2 (Some [1000, - 1000]) 2 [0, 0, 7] 3 = Inr (2, feats)"
    and nz: "(\<exists>k<2. mags ! k \<noteq> 0) \<longrightarrow>
        Max (sint ` set (take 2 feats)) = sint FIXED_ONE \<and>
        (\<forall>k<2. sint (feats ! k) =
             (sint (mags ! k) * sint FIXED_ONE) div Max (sint ` set (take 2 mags)))"
    using extract_features_normalizes [OF h1 h2 h3 h4] unfolding n2 nb by blast
  have mags: "mags = [0, 1000, 7]"
    using m spectrum_example by simp
  have "mags ! 1 \<noteq> 0"
    by (simp add: mags)
  then have "\<exists>k<2. mags ! k \<noteq> 0"
    by (intro exI [of _ 1]) simp
  then have mx: "Max (sint ` set (take 2 feats)) = sint FIXED_ONE"
    and v: "\<forall>k<2. sint (feats ! k) =
             (sint (mags ! k) * sint FIXED_ONE) div Max (sint ` set (take 2 mags))"
    using nz by simp_all
  have "take 2 mags = [0, 1000]"
    by (simp add: mags numeral_2_eq_2)
  then have "Max (sint ` set (take 2 mags)) = 1000"
    by simp
  then have "sint (feats ! 0) = 0" and "sint (feats ! 1) = 65536"
    using v by (simp_all add: mags FIXED_ONE_eq)
  then show ?thesis
    using h1 h2 h3 h4 spectrum_example f mx by (auto simp add: FIXED_ONE_eq)
qed

end
